theory Spec2Isabelle
  imports Main "HOL-Library.Monad_Syntax" "HOL-Library.Sublist"
begin

section \<open>Python strings\<close>

text \<open>
  A Python \<open>str\<close> is a sequence of Unicode code points; the program's own literals
  contain Persian text, so a string is modelled as the list of its code points.
  \<open>str\<close> turns an ASCII literal into such a list.
\<close>

type_synonym pystr = "nat list"

definition str :: "string \<Rightarrow> pystr" where
  "str cs = map of_char cs"

text \<open>
  The white-space code points of \<open>str.strip()\<close> and of the pattern \<open>\s\<close>
  (both use the same table of the interpreter).
\<close>

definition isspace :: "nat \<Rightarrow> bool" where
  "isspace c \<longleftrightarrow>
     (9 \<le> c \<and> c \<le> 13) \<or> (28 \<le> c \<and> c \<le> 32) \<or> c = 0x85 \<or> c = 0xA0 \<or> c = 0x1680 \<or>
     (0x2000 \<le> c \<and> c \<le> 0x200A) \<or> c = 0x2028 \<or> c = 0x2029 \<or> c = 0x202F \<or>
     c = 0x205F \<or> c = 0x3000"

definition py_strip :: "pystr \<Rightarrow> pystr" where
  "py_strip s = rev (dropWhile isspace (rev (dropWhile isspace s)))"

text \<open>\<open>s.split(sep)\<close> for a separator of one character.\<close>

fun py_split :: "nat \<Rightarrow> pystr \<Rightarrow> pystr list" where
  "py_split sep [] = [] # []"
| "py_split sep (c # cs) =
     (if c = sep then [] # py_split sep cs
      else (case py_split sep cs of [] \<Rightarrow> [c] # [] | w # ws \<Rightarrow> (c # w) # ws))"

definition ascii_lower :: "nat \<Rightarrow> nat" where
  "ascii_lower c = (if 65 \<le> c \<and> c \<le> 90 then c + 32 else c)"

definition ascii_upper :: "nat \<Rightarrow> nat" where
  "ascii_upper c = (if 97 \<le> c \<and> c \<le> 122 then c - 32 else c)"

text \<open>
  \<open>str.lower()\<close>. On the Basic Latin block it maps \<open>A..Z\<close> to \<open>a..z\<close>, and the Arabic
  block (the Persian literals of the program) has no case. The case table of every other
  script belongs to the interpreter, not to the repository: it is the parameter \<open>tbl\<close>,
  which gives the lower-case form of a string that contains such a code point (a whole
  string, since the table is context dependent).
\<close>

definition in_known_blocks :: "nat \<Rightarrow> bool" where
  "in_known_blocks c \<longleftrightarrow> c < 128 \<or> (0x600 \<le> c \<and> c \<le> 0x6FF)"

definition py_lower :: "(pystr \<Rightarrow> pystr) \<Rightarrow> pystr \<Rightarrow> pystr" where
  "py_lower tbl s = (if list_all in_known_blocks s then map ascii_lower s else tbl s)"

section \<open>The regular expressions of the program\<close>

text \<open>
  How a literal character \<open>p\<close> of a pattern compares with a character \<open>c\<close> of the text.
  Under \<open>re.IGNORECASE\<close> a Basic Latin letter matches its two cases and the code points
  that the engine folds onto them: U+0130 and U+0131 for \<open>i\<close>, U+212A for \<open>k\<close>, U+017F
  for \<open>s\<close>. The patterns compiled with the flag contain Basic Latin characters only.
\<close>

definition ci_eq :: "nat \<Rightarrow> nat \<Rightarrow> bool" where
  "ci_eq p c \<longleftrightarrow>
     (let lo = ascii_lower p in
        c = lo \<or> c = ascii_upper lo \<or>
        (lo = 105 \<and> (c = 0x130 \<or> c = 0x131)) \<or>
        (lo = 107 \<and> c = 0x212A) \<or>
        (lo = 115 \<and> c = 0x17F))"

definition chr_match :: "bool \<Rightarrow> nat \<Rightarrow> nat \<Rightarrow> bool" where
  "chr_match ic p c = (if ic \<and> p < 128 then ci_eq p c else c = p)"

text \<open>The character classes in use: \<open>\s\<close>, \<open>.\<close> (no newline) and \<open>[\s\S]\<close>.\<close>

datatype cclass = Space | Dot | AnyChar

fun in_class :: "cclass \<Rightarrow> nat \<Rightarrow> bool" where
  "in_class Space c = isspace c"
| "in_class Dot c = (c \<noteq> 10)"
| "in_class AnyChar c = True"

text \<open>
  Patterns: a literal character, sequence, alternation \<open>a|b\<close>, greedy \<open>k*\<close> and lazy
  \<open>k*?\<close> over a character class, a numbered group, the look-ahead \<open>(?=a)\<close>, \<open>\Z\<close>
  and \<open>$\<close>.
\<close>

datatype regex =
    Eps
  | Lit nat
  | Seq regex regex
  | Alt regex regex
  | Star cclass
  | StarLazy cclass
  | Group nat regex
  | Ahead regex
  | EndZ
  | Dollar

fun lits :: "pystr \<Rightarrow> regex" where
  "lits [] = Eps"
| "lits (c # cs) = Seq (Lit c) (lits cs)"

fun seq :: "regex list \<Rightarrow> regex" where
  "seq [] = Eps"
| "seq (r # rs) = Seq r (seq rs)"

text \<open>
  The backtracking matcher. A state is the text still to be read and the groups captured so
  far; a group is kept as the text at its start and the text at its end. \<open>ms ic r st\<close>
  lists the states in which \<open>r\<close> can finish from \<open>st\<close>, in the order in which the engine
  tries them, so its head is the match the engine reports. \<open>ic\<close> is \<open>re.IGNORECASE\<close>.
\<close>

type_synonym caps = "(nat \<times> pystr \<times> pystr) list"
type_synonym mstate = "pystr \<times> caps"

fun star_all :: "(nat \<Rightarrow> bool) \<Rightarrow> pystr \<Rightarrow> pystr list" where
  "star_all P [] = [] # []"
| "star_all P (c # cs) = (c # cs) # (if P c then star_all P cs else [])"

fun ms :: "bool \<Rightarrow> regex \<Rightarrow> mstate \<Rightarrow> mstate list" where
  "ms ic Eps st = [st]"
| "ms ic (Lit p) (s, g) =
     (case s of [] \<Rightarrow> [] | c # cs \<Rightarrow> if chr_match ic p c then [(cs, g)] else [])"
| "ms ic (Seq a b) st = concat (map (ms ic b) (ms ic a st))"
| "ms ic (Alt a b) st = ms ic a st @ ms ic b st"
| "ms ic (Star k) (s, g) = map (\<lambda>s'. (s', g)) (rev (star_all (in_class k) s))"
| "ms ic (StarLazy k) (s, g) = map (\<lambda>s'. (s', g)) (star_all (in_class k) s)"
| "ms ic (Group n a) (s, g) = map (\<lambda>(s', g'). (s', (n, s, s') # g')) (ms ic a (s, g))"
| "ms ic (Ahead a) (s, g) = (case ms ic a (s, g) of [] \<Rightarrow> [] | (s', g') # _ \<Rightarrow> [(s, g')])"
| "ms ic EndZ (s, g) = (if s = [] then [(s, g)] else [])"
| "ms ic Dollar (s, g) = (if s = [] \<or> s = [10] then [(s, g)] else [])"

text \<open>\<open>re.search\<close>: the first match at the leftmost position that has one.\<close>

fun re_search :: "bool \<Rightarrow> regex \<Rightarrow> pystr \<Rightarrow> caps option" where
  "re_search ic r [] = (case ms ic r ([], []) of [] \<Rightarrow> None | (s', g) # _ \<Rightarrow> Some g)"
| "re_search ic r (c # cs) =
     (case ms ic r (c # cs, []) of [] \<Rightarrow> re_search ic r cs | (s', g) # _ \<Rightarrow> Some g)"

text \<open>
  \<open>match.group(n)\<close>: the text of group \<open>n\<close>, or \<open>None\<close> when the group took no part in
  the match.
\<close>

definition group :: "caps \<Rightarrow> nat \<Rightarrow> pystr option" where
  "group g n = (case map_of g n of None \<Rightarrow> None
                | Some (s, s') \<Rightarrow> Some (take (length s - length s') s))"

text \<open>
  \<open>re.findall\<close> (without flags): the successive matches from left to right, each search
  starting where the previous match ended; after an empty match the scan moves on by one
  character.
\<close>

function findall :: "regex \<Rightarrow> pystr \<Rightarrow> caps list" where
  "findall r [] = (case ms False r ([], []) of [] \<Rightarrow> [] | (s', g) # _ \<Rightarrow> [g])"
| "findall r (c # cs) =
     (case ms False r (c # cs, []) of
        [] \<Rightarrow> findall r cs
      | (s', g) # _ \<Rightarrow>
          if length s' < length (c # cs) then g # findall r s' else g # findall r cs)"
  by pat_completeness auto
termination
  by (relation "measure (\<lambda>(r, s). length s)") auto

text \<open>In the tuples of \<open>findall\<close> a group that took no part is the empty string.\<close>

definition group_or_empty :: "caps \<Rightarrow> nat \<Rightarrow> pystr" where
  "group_or_empty g n = (case group g n of None \<Rightarrow> [] | Some w \<Rightarrow> w)"

section \<open>The functions of app.py\<close>

subsection \<open>The literals\<close>

definition fa_minor :: pystr where
  "fa_minor = [0x62C, 0x632, 0x626, 0x6CC]"

definition fa_moderate :: pystr where
  "fa_moderate = [0x645, 0x62A, 0x648, 0x633, 0x637]"

definition fa_severe :: pystr where
  "fa_severe = [0x634, 0x62F, 0x6CC, 0x62F]"

definition fa_replace :: pystr where
  "fa_replace = [0x62A, 0x639, 0x648, 0x6CC, 0x636]"

definition fa_repair :: pystr where
  "fa_repair = [0x62A, 0x639, 0x645, 0x6CC, 0x631]"

definition fa_safe :: pystr where
  "fa_safe = [0x627, 0x6CC, 0x645, 0x646]"

definition fa_unsafe :: pystr where
  "fa_unsafe = [0x63A, 0x6CC, 0x631, 0x20, 0x627, 0x6CC, 0x645, 0x646]"

definition fa_million_toman :: pystr where
  "fa_million_toman =
     [0x20, 0x645, 0x6CC, 0x644, 0x6CC, 0x648, 0x646, 0x20, 0x62A, 0x648, 0x645, 0x627, 0x646]"

definition sentinel :: pystr where
  "sentinel = str ''---''"

subsection \<open>translate_severity and estimate_cost\<close>

definition severity_map :: "pystr \<rightharpoonup> pystr" where
  "severity_map = map_of
     [(str ''minor'', fa_minor),
      (str ''moderate'', fa_moderate),
      (str ''severe'', fa_severe),
      (fa_minor, fa_minor),
      (fa_moderate, fa_moderate),
      (fa_severe, fa_severe)]"

definition translate_severity :: "(pystr \<Rightarrow> pystr) \<Rightarrow> pystr \<Rightarrow> pystr" where
  "translate_severity tbl severity =
     (case severity_map (py_lower tbl severity) of None \<Rightarrow> severity | Some v \<Rightarrow> v)"

definition costs :: "pystr \<rightharpoonup> pystr" where
  "costs = map_of
     [(str ''minor'', str ''1-2'' @ fa_million_toman),
      (str ''moderate'', str ''3-5'' @ fa_million_toman),
      (str ''severe'', str ''6-10'' @ fa_million_toman)]"

definition estimate_cost :: "(pystr \<Rightarrow> pystr) \<Rightarrow> pystr \<Rightarrow> pystr" where
  "estimate_cost tbl severity =
     (case costs (py_lower tbl severity) of None \<Rightarrow> sentinel | Some v \<Rightarrow> v)"

subsection \<open>extract_value\<close>

text \<open>
  The pattern \<open>rf"{key.strip()}:\s*(.*?)(?=\n|$)"\<close>. The key is spliced into the pattern
  text; every key that the program passes is made of letters and spaces, which stand for
  themselves in a pattern.
\<close>

definition value_re :: "pystr \<Rightarrow> regex" where
  "value_re key =
     seq [lits (py_strip key), Lit 58, Star Space, Group 1 (StarLazy Dot),
          Ahead (Alt (Lit 10) Dollar)]"

text \<open>
  The loop over \<open>keys.split("|")\<close>. \<open>None\<close> stands for the exception that
  \<open>match.group(1).strip()\<close> raises when the group is \<open>None\<close>.
\<close>

fun extract_loop :: "pystr \<Rightarrow> pystr list \<Rightarrow> pystr option" where
  "extract_loop txt [] = Some sentinel"
| "extract_loop txt (key # keys) =
     (case re_search True (value_re key) txt of
        None \<Rightarrow> extract_loop txt keys
      | Some m \<Rightarrow> map_option py_strip (group m 1))"

definition extract_value :: "pystr \<Rightarrow> pystr \<Rightarrow> pystr option" where
  "extract_value txt keys = extract_loop txt (py_split 124 keys)"

subsection \<open>parse_analysis\<close>

record damage =
  part :: pystr
  dtype :: pystr
  severity :: pystr
  action :: pystr
  cost :: pystr

record report =
  vehicle :: "(string \<times> pystr) list"
  damages :: "damage list"
  total_cost :: pystr
  repair_time :: pystr
  safety_status :: pystr
  content :: pystr

text \<open>
  The dictionary \<open>vehicle\<close> is the list of its items in the order of insertion: empty, or
  the four keys that the program stores.
\<close>

text \<open>
  The value that \<open>parse_analysis\<close> returns: the dictionary with all six keys, or, from the
  \<open>except\<close> branch, the dictionary that holds the content alone.
\<close>

datatype analysis = Parsed report | Degraded pystr

text \<open>\<open>###\s*1\.\s*Vehicle\s*Identification\n([\s\S]*?)(?=\n###|\Z)\<close>\<close>

definition vehicle_re :: regex where
  "vehicle_re =
     seq [lits (str ''###''), Star Space, lits (str ''1.''), Star Space,
          lits (str ''Vehicle''), Star Space, lits (str ''Identification''), Lit 10,
          Group 1 (StarLazy AnyChar), Ahead (Alt (lits (10 # str ''###'')) EndZ)]"

text \<open>\<open>###\s*2\.\s*Damage\s*Assessment\n([\s\S]*?)(?=\n###|\Z)\<close>\<close>

definition damages_re :: regex where
  "damages_re =
     seq [lits (str ''###''), Star Space, lits (str ''2.''), Star Space,
          lits (str ''Damage''), Star Space, lits (str ''Assessment''), Lit 10,
          Group 1 (StarLazy AnyChar), Ahead (Alt (lits (10 # str ''###'')) EndZ)]"

text \<open>
  \<open>- (.*?) \((.*?)\) - (minor|moderate|severe|...)\<close>, the last three alternatives being
  the Persian words for minor, moderate and severe.
\<close>

definition damage_item_re :: regex where
  "damage_item_re =
     seq [lits (str ''- ''), Group 1 (StarLazy Dot), lits (str '' (''),
          Group 2 (StarLazy Dot), lits (str '') - ''),
          Group 3 (Alt (lits (str ''minor'')) (Alt (lits (str ''moderate''))
                  (Alt (lits (str ''severe'')) (Alt (lits fa_minor)
                  (Alt (lits fa_moderate) (lits fa_severe))))))]"

text \<open>\<open>safe to drive: yes|safe: yes\<close>\<close>

definition safe_re :: regex where
  "safe_re = Alt (lits (str ''safe to drive: yes'')) (lits (str ''safe: yes''))"

text \<open>The body of the loop over \<open>damage_items\<close>: one record for one tuple of groups.\<close>

definition damage_record :: "(pystr \<Rightarrow> pystr) \<Rightarrow> pystr \<times> pystr \<times> pystr \<Rightarrow> damage" where
  "damage_record tbl item =
     (case item of (p, damage_type, sev) \<Rightarrow>
        \<lparr>part = py_strip p,
         dtype = py_strip damage_type,
         severity = translate_severity tbl sev,
         action = (if py_lower tbl sev \<in> set [str ''severe'', fa_severe]
                   then fa_replace else fa_repair),
         cost = estimate_cost tbl sev\<rparr>)"

definition damage_items :: "pystr \<Rightarrow> (pystr \<times> pystr \<times> pystr) list" where
  "damage_items txt =
     map (\<lambda>g. (group_or_empty g 1, group_or_empty g 2, group_or_empty g 3))
       (findall damage_item_re txt)"

text \<open>
  The \<open>try\<close> block. \<open>None\<close> stands for an exception raised inside it: the only
  operations that can raise on a string are those on a group that is \<open>None\<close>.
\<close>

definition parse_vehicle :: "pystr \<Rightarrow> (string \<times> pystr) list option" where
  "parse_vehicle txt =
     (case re_search True vehicle_re txt of
        None \<Rightarrow> Some []
      | Some vehicle_match \<Rightarrow> do {
          vehicle_info \<leftarrow> group vehicle_match 1;
          make \<leftarrow> extract_value vehicle_info (str ''make|manufacturer'');
          model \<leftarrow> extract_value vehicle_info (str ''model'');
          year \<leftarrow> extract_value vehicle_info (str ''year'');
          plate \<leftarrow> extract_value vehicle_info (str ''license plate|plate'');
          Some [(''make'', make), (''model'', model), (''year'', year), (''plate'', plate)]
        })"

definition parse_damages :: "(pystr \<Rightarrow> pystr) \<Rightarrow> pystr \<Rightarrow> damage list option" where
  "parse_damages tbl txt =
     (case re_search True damages_re txt of
        None \<Rightarrow> Some []
      | Some damages_match \<Rightarrow> do {
          section \<leftarrow> group damages_match 1;
          Some (map (damage_record tbl) (damage_items section))
        })"

definition parse_body :: "(pystr \<Rightarrow> pystr) \<Rightarrow> pystr \<Rightarrow> report option" where
  "parse_body tbl txt = do {
     v \<leftarrow> parse_vehicle txt;
     ds \<leftarrow> parse_damages tbl txt;
     tc \<leftarrow> extract_value txt (str ''total estimated repair cost|total cost'');
     rt \<leftarrow> extract_value txt (str ''estimated repair timeline|repair time'');
     Some \<lparr>vehicle = v, damages = ds, total_cost = tc, repair_time = rt,
           safety_status = (if re_search True safe_re txt \<noteq> None then fa_safe else fa_unsafe),
           content = txt\<rparr>
   }"

definition parse_analysis :: "(pystr \<Rightarrow> pystr) \<Rightarrow> pystr \<Rightarrow> analysis" where
  "parse_analysis tbl txt =
     (case parse_body tbl txt of None \<Rightarrow> Degraded txt | Some r \<Rightarrow> Parsed r)"

section \<open>A matcher that stops at the first match\<close>

text \<open>
  \<open>msk\<close> runs the same search as \<open>ms\<close> with a continuation and returns the first state
  that the continuation accepts, without building the list of all alternatives. It is proved
  equal to the head of \<open>ms\<close> below and is used to evaluate the model on concrete texts.
\<close>

fun first_some :: "('a \<Rightarrow> 'b option) \<Rightarrow> 'a list \<Rightarrow> 'b option" where
  "first_some k [] = None"
| "first_some k (x # xs) = (case k x of None \<Rightarrow> first_some k xs | Some y \<Rightarrow> Some y)"

fun star_g :: "(nat \<Rightarrow> bool) \<Rightarrow> pystr \<Rightarrow> (pystr \<Rightarrow> mstate option) \<Rightarrow> mstate option" where
  "star_g P [] k = k []"
| "star_g P (c # cs) k =
     (if P c then (case star_g P cs k of None \<Rightarrow> k (c # cs) | Some r \<Rightarrow> Some r) else k (c # cs))"

fun star_l :: "(nat \<Rightarrow> bool) \<Rightarrow> pystr \<Rightarrow> (pystr \<Rightarrow> mstate option) \<Rightarrow> mstate option" where
  "star_l P [] k = k []"
| "star_l P (c # cs) k =
     (case k (c # cs) of None \<Rightarrow> if P c then star_l P cs k else None | Some r \<Rightarrow> Some r)"

fun msk :: "bool \<Rightarrow> regex \<Rightarrow> mstate \<Rightarrow> (mstate \<Rightarrow> mstate option) \<Rightarrow> mstate option" where
  "msk ic Eps st k = k st"
| "msk ic (Lit p) (s, g) k =
     (case s of [] \<Rightarrow> None | c # cs \<Rightarrow> if chr_match ic p c then k (cs, g) else None)"
| "msk ic (Seq a b) st k = msk ic a st (\<lambda>st'. msk ic b st' k)"
| "msk ic (Alt a b) st k = (case msk ic a st k of None \<Rightarrow> msk ic b st k | Some r \<Rightarrow> Some r)"
| "msk ic (Star c) (s, g) k = star_g (in_class c) s (\<lambda>s'. k (s', g))"
| "msk ic (StarLazy c) (s, g) k = star_l (in_class c) s (\<lambda>s'. k (s', g))"
| "msk ic (Group n a) (s, g) k = msk ic a (s, g) (\<lambda>st'. k (fst st', (n, s, fst st') # snd st'))"
| "msk ic (Ahead a) (s, g) k =
     (case msk ic a (s, g) Some of None \<Rightarrow> None | Some st' \<Rightarrow> k (s, snd st'))"
| "msk ic EndZ (s, g) k = (if s = [] then k (s, g) else None)"
| "msk ic Dollar (s, g) k = (if s = [] \<or> s = [10] then k (s, g) else None)"

section \<open>Notions used to state the properties\<close>

text \<open>\<open>sets_group n r\<close>: every match of \<open>r\<close> goes through a group numbered \<open>n\<close>.\<close>

fun sets_group :: "nat \<Rightarrow> regex \<Rightarrow> bool" where
  "sets_group n (Seq a b) = (sets_group n a \<or> sets_group n b)"
| "sets_group n (Alt a b) = (sets_group n a \<and> sets_group n b)"
| "sets_group n (Group m a) = (m = n \<or> sets_group n a)"
| "sets_group n (Ahead a) = sets_group n a"
| "sets_group n r = False"

text \<open>
  \<open>ci_word p w\<close>: the text \<open>w\<close> is the phrase \<open>p\<close> up to case, character by character, as
  the engine compares them under \<open>re.IGNORECASE\<close>. \<open>contains_ci p s\<close>: the text \<open>s\<close>
  contains the phrase \<open>p\<close>, case-insensitively.
\<close>

definition ci_word :: "pystr \<Rightarrow> pystr \<Rightarrow> bool" where
  "ci_word p w \<longleftrightarrow> list_all2 (chr_match True) p w"

definition contains_ci :: "pystr \<Rightarrow> pystr \<Rightarrow> bool" where
  "contains_ci p s \<longleftrightarrow> (\<exists>xs w ys. s = xs @ w @ ys \<and> ci_word p w)"

text \<open>
  \<open>has_header num w1 w2 s\<close>: somewhere in \<open>s\<close> stands a section header, that is
  \<open>###\<close>, the number \<open>num\<close>, the two words \<open>w1\<close> and \<open>w2\<close> in any case, with any
  white space (or none) between them, and the end of the line.
\<close>

definition has_header :: "pystr \<Rightarrow> pystr \<Rightarrow> pystr \<Rightarrow> pystr \<Rightarrow> bool" where
  "has_header num w1 w2 s \<longleftrightarrow>
     (\<exists>pre a b c h1 h2 rest.
        s = pre @ str ''###'' @ a @ num @ b @ h1 @ c @ h2 @ [10] @ rest \<and>
        list_all isspace a \<and> list_all isspace b \<and> list_all isspace c \<and>
        ci_word w1 h1 \<and> ci_word w2 h2)"

text \<open>
  The block that the pattern of the Damage Assessment section captures, if the section is
  found.
\<close>

definition damage_section :: "pystr \<Rightarrow> pystr option" where
  "damage_section txt =
     (case re_search True damages_re txt of None \<Rightarrow> None | Some m \<Rightarrow> group m 1)"

subsection \<open>The texts of the examples\<close>

text \<open>The text of Scenario A.\<close>

definition scenario_a :: pystr where
  "scenario_a = str ''### 1. Vehicle Identification\<newline>Make: Toyota\<newline>Model: Camry\<newline>Year: 2019\<newline>License Plate: ABC123\<newline>### 2. Damage Assessment\<newline>- Front Bumper (Cracked) - severe\<newline>- Hood (Dented) - minor\<newline>Total Estimated Repair Cost: 5000\<newline>Estimated Repair Timeline: 3 days\<newline>Safe to drive: yes''"

text \<open>The notice that both clients return when the request to the model fails.\<close>

definition failure_notice :: pystr where
  "failure_notice = str ''Analysis failed. Please try again.''"

text \<open>Plain prose: no header, no label, no safety phrase.\<close>

definition plain_prose :: pystr where
  "plain_prose = str ''The car has a dent on the left door and a broken mirror.''"

text \<open>A damage section with one line whose severity is the Persian word for severe.\<close>

definition severe_door :: pystr where
  "severe_door = str ''### 2. Damage Assessment\<newline>- Door (Scratched) - '' @ fa_severe"

text \<open>
  A damage section with two lines of the same severity, the first written in English and the
  second in Persian.
\<close>

definition two_minor_lines :: pystr where
  "two_minor_lines =
     str ''### 2. Damage Assessment\<newline>- Hood (Dented) - minor\<newline>- Door (Scratched) - '' @ fa_minor"

text \<open>A label whose line is empty, followed by another line.\<close>

definition empty_make_line :: pystr where
  "empty_make_line = str ''Make:\<newline>Model: Camry''"

section \<open>The first-match matcher agrees with the list of matches\<close>

lemma first_some_append:
  "first_some k (xs @ ys) = (case first_some k xs of None \<Rightarrow> first_some k ys | Some y \<Rightarrow> Some y)"
  by (induction xs) (auto split: option.splits)

lemma first_some_concat_map:
  "first_some k (concat (map f xs)) = first_some (\<lambda>x. first_some k (f x)) xs"
  by (induction xs) (auto simp: first_some_append split: option.splits)

lemma first_some_map: "first_some k (map f xs) = first_some (\<lambda>x. k (f x)) xs"
  by (induction xs) (auto split: option.splits)

lemma first_some_Some: "first_some Some xs = (case xs of [] \<Rightarrow> None | x # _ \<Rightarrow> Some x)"
  by (cases xs) auto

lemma star_g_first: "star_g P s k = first_some k (rev (star_all P s))"
  by (induction s) (auto simp: first_some_append split: option.splits)

lemma star_l_first: "star_l P s k = first_some k (star_all P s)"
  by (induction s) (auto split: option.splits)

lemma msk_first: "msk ic r st k = first_some k (ms ic r st)"
proof (induction r arbitrary: st k)
  case Eps
  show ?case by (simp split: option.splits)
next
  case (Lit p)
  show ?case by (cases st) (simp split: list.splits option.splits)
next
  case (Seq a b)
  then show ?case by (simp add: first_some_concat_map)
next
  case (Alt a b)
  then show ?case by (simp add: first_some_append split: option.splits)
next
  case (Star c)
  show ?case by (cases st) (simp add: star_g_first first_some_map)
next
  case (StarLazy c)
  show ?case by (cases st) (simp add: star_l_first first_some_map)
next
  case (Group n a)
  then show ?case by (cases st) (simp add: first_some_map case_prod_unfold)
next
  case (Ahead a)
  then show ?case by (cases st) (auto simp: first_some_Some split: list.splits option.splits)
next
  case EndZ
  show ?case by (cases st) (simp split: option.splits)
next
  case Dollar
  show ?case by (cases st) (simp split: option.splits)
qed


section \<open>Evaluation rules\<close>

lemma str_Nil: "str [] = []" by (simp add: str_def)
lemma str_Cons: "str (c # cs) = of_char c # str cs" by (simp add: str_def)
lemma of_char_bits:
  "(of_char (Char b0 b1 b2 b3 b4 b5 b6 b7) :: nat) =
     (if b0 then 1 else 0) + ((if b1 then 2 else 0) + ((if b2 then 4 else 0) +
     ((if b3 then 8 else 0) + ((if b4 then 16 else 0) + ((if b5 then 32 else 0) +
     ((if b6 then 64 else 0) + (if b7 then 128 else 0)))))))"
  by simp

lemmas str_eval = str_Nil str_Cons of_char_bits if_True if_False add_0_left add_0_right
  one_plus_numeral numeral_plus_one arith_simps

lemma ms_hd_k:
  "(case ms ic r st of [] \<Rightarrow> a | x # xs \<Rightarrow> f x) = (case msk ic r st Some of None \<Rightarrow> a | Some x \<Rightarrow> f x)"
  by (simp add: msk_first first_some_Some split: list.splits)

lemma re_search_Nil_k:
  "re_search ic r [] = (case msk ic r ([], []) Some of None \<Rightarrow> None | Some st \<Rightarrow> Some (snd st))"
  by (simp add: msk_first first_some_Some split: list.splits prod.splits)

lemma re_search_Cons_k:
  "re_search ic r (c # cs) =
     (case msk ic r (c # cs, []) Some of None \<Rightarrow> re_search ic r cs | Some st \<Rightarrow> Some (snd st))"
  by (simp add: msk_first first_some_Some split: list.splits prod.splits)

lemma findall_Nil_k:
  "findall r [] = (case msk False r ([], []) Some of None \<Rightarrow> [] | Some st \<Rightarrow> [snd st])"
  by (simp add: msk_first first_some_Some split: list.splits prod.splits)

lemma findall_Cons_k:
  "findall r (c # cs) =
     (case msk False r (c # cs, []) Some of
        None \<Rightarrow> findall r cs
      | Some st \<Rightarrow> if length (fst st) < length (c # cs) then snd st # findall r (fst st)
                   else snd st # findall r cs)"
  by (simp add: msk_first first_some_Some split: list.splits prod.splits)

lemma ci_eq_eval: "ci_eq p c \<longleftrightarrow>
   (c = ascii_lower p \<or> (97 \<le> ascii_lower p \<and> ascii_lower p \<le> 122 \<and> c + 32 = ascii_lower p) \<or>
        (ascii_lower p = 105 \<and> (c = 0x130 \<or> c = 0x131)) \<or>
        (ascii_lower p = 107 \<and> c = 0x212A) \<or>
        (ascii_lower p = 115 \<and> c = 0x17F))"
  by (auto simp: ci_eq_def Let_def ascii_upper_def)

lemma length_Cons_Suc: "length (x # xs) = Suc (length xs)" by simp

lemmas eval_cong = if_weak_cong option.case_cong_weak list.case_cong_weak

lemmas eval_rules =
  re_search_Nil_k re_search_Cons_k findall_Nil_k findall_Cons_k msk.simps star_g.simps star_l.simps
  lits.simps seq.simps in_class.simps chr_match_def ci_eq_eval ascii_lower_def isspace_def
  list.case option.case prod.case if_True if_False simp_thms rel_simps arith_simps
  fst_conv snd_conv option.map list.inject list.distinct option.inject option.distinct
  py_split.simps py_strip_def dropWhile.simps rev.simps append.simps
  extract_loop.simps extract_value_def value_re_def group_def group_or_empty_def
  map_of.simps fun_upd_apply length_Cons_Suc list.size(3) diff_Suc_Suc diff_zero take_Suc_Cons take_0
  Suc_less_eq zero_less_Suc not_less_zero less_nat_zero_code
  bind.bind_lunit bind.bind_lzero list.map
  py_lower_def in_known_blocks_def list.pred_inject list.set insert_iff empty_iff
  translate_severity_def estimate_cost_def severity_map_def costs_def sentinel_def
  fa_minor_def fa_moderate_def fa_severe_def fa_replace_def fa_repair_def fa_safe_def fa_unsafe_def
  fa_million_toman_def damage_record_def damage_items_def
  vehicle_re_def damages_re_def damage_item_re_def safe_re_def
  parse_vehicle_def parse_damages_def parse_body_def parse_analysis_def


section \<open>Every group that the program reads is set\<close>

lemma ms_Ahead_mem:
  assumes "(s', g') \<in> set (ms ic (Ahead a) (s, g))"
  shows "s' = s \<and> (\<exists>s1. (s1, g') \<in> set (ms ic a (s, g)))"
proof (cases "ms ic a (s, g)")
  case Nil
  with assms show ?thesis by simp
next
  case (Cons x xs)
  with assms have "s' = s" "g' = snd x" by (auto split: prod.splits)
  moreover from Cons have "(fst x, snd x) \<in> set (ms ic a (s, g))" by simp
  ultimately show ?thesis by blast
qed

lemma ms_keys_mono: "(s', g') \<in> set (ms ic r (s, g)) \<Longrightarrow> fst ` set g \<subseteq> fst ` set g'"
proof (induction r arbitrary: s g s' g')
  case (Seq a b)
  then obtain s1 g1 where "(s1, g1) \<in> set (ms ic a (s, g))" "(s', g') \<in> set (ms ic b (s1, g1))"
    by auto
  with Seq.IH show ?case by blast
next
  case (Ahead a)
  then obtain s1 where "(s1, g') \<in> set (ms ic a (s, g))"
    by (blast dest: ms_Ahead_mem)
  with Ahead.IH show ?case by blast
next
  case (Group n a)
  then obtain g1 where "(s', g1) \<in> set (ms ic a (s, g))" "g' = (n, s, s') # g1"
    by auto
  with Group.IH [of s' g1 s g] show ?case by auto
next
  case (Alt a b)
  from Alt.prems have "(s', g') \<in> set (ms ic a (s, g)) \<or> (s', g') \<in> set (ms ic b (s, g))"
    by simp
  with Alt.IH show ?case by blast
qed (auto split: list.splits if_splits)

lemma sets_group_ms:
  "sets_group n r \<Longrightarrow> (s', g') \<in> set (ms ic r (s, g)) \<Longrightarrow> n \<in> fst ` set g'"
proof (induction r arbitrary: s g s' g')
  case (Seq a b)
  from Seq.prems(2) obtain s1 g1 where
    m: "(s1, g1) \<in> set (ms ic a (s, g))" "(s', g') \<in> set (ms ic b (s1, g1))"
    by auto
  show ?case
  proof (cases "sets_group n a")
    case True
    with Seq.IH(1) m(1) have "n \<in> fst ` set g1" by blast
    with ms_keys_mono [OF m(2)] show ?thesis by blast
  next
    case False
    with Seq.prems(1) have "sets_group n b" by simp
    with Seq.IH(2) m(2) show ?thesis by blast
  qed
next
  case (Alt a b)
  then show ?case by auto
next
  case (Group m a)
  from Group.prems(2) obtain g1 where
    m: "(s', g1) \<in> set (ms ic a (s, g))" "g' = (m, s, s') # g1"
    by auto
  show ?case
  proof (cases "m = n")
    case True
    with m(2) show ?thesis by simp
  next
    case False
    with Group.prems(1) have "sets_group n a" by simp
    with Group.IH m show ?thesis by force
  qed
next
  case (Ahead a)
  from Ahead.prems(2) obtain s1 where "(s1, g') \<in> set (ms ic a (s, g))"
    by (blast dest: ms_Ahead_mem)
  with Ahead show ?case by auto
qed simp_all

lemma re_search_Some: "re_search ic r s = Some g \<Longrightarrow> \<exists>t s'. suffix t s \<and> (s', g) \<in> set (ms ic r (t, []))"
proof (induction s)
  case Nil
  then show ?case by (auto split: list.splits)
next
  case (Cons c cs)
  show ?case
  proof (cases "ms ic r (c # cs, [])")
    case Nil
    with Cons obtain t s' where "suffix t cs" "(s', g) \<in> set (ms ic r (t, []))" by auto
    then show ?thesis by (auto simp: suffix_Cons)
  next
    case (Cons x xs)
    with Cons.prems have "(fst x, g) \<in> set (ms ic r (c # cs, []))"
      by (cases x) auto
    then show ?thesis by blast
  qed
qed

lemma re_search_None: "re_search ic r s = None \<longleftrightarrow> (\<forall>t. suffix t s \<longrightarrow> ms ic r (t, []) = [])"
  by (induction s) (auto simp: suffix_Cons split: list.splits)

lemma group_defined: "n \<in> fst ` set g \<Longrightarrow> \<exists>w. group g n = Some w"
  by (cases "map_of g n") (auto simp: group_def map_of_eq_None_iff)

lemma re_search_group:
  assumes "sets_group n r" "re_search ic r s = Some g"
  shows "\<exists>w. group g n = Some w"
proof -
  from re_search_Some [OF assms(2)] obtain t s' where "(s', g) \<in> set (ms ic r (t, []))" by blast
  with assms(1) have "n \<in> fst ` set g" by (rule sets_group_ms)
  then show ?thesis by (rule group_defined)
qed

lemma sets_group_value_re: "sets_group 1 (value_re key)"
  by (simp add: value_re_def)

lemma extract_loop_total: "\<exists>v. extract_loop txt keys = Some v"
proof (induction keys)
  case Nil
  show ?case by simp
next
  case (Cons key keys)
  show ?case
  proof (cases "re_search True (value_re key) txt")
    case None
    with Cons show ?thesis by simp
  next
    case (Some m)
    with re_search_group [OF sets_group_value_re Some] show ?thesis by auto
  qed
qed

lemma extract_value_total: "\<exists>v. extract_value txt keys = Some v"
  by (simp add: extract_value_def extract_loop_total)

section \<open>What a match of a pattern says about the text\<close>

lemma ms_Lit_mem:
  "(s', g') \<in> set (ms ic (Lit p) (s, g)) \<longleftrightarrow> g' = g \<and> (\<exists>c. s = c # s' \<and> chr_match ic p c)"
  by (cases s) auto

lemma ms_Seq_mem:
  "(s', g') \<in> set (ms ic (Seq a b) st) \<longleftrightarrow>
     (\<exists>s1 g1. (s1, g1) \<in> set (ms ic a st) \<and> (s', g') \<in> set (ms ic b (s1, g1)))"
  by auto

lemma ms_Group_mem:
  "(s', g') \<in> set (ms ic (Group n a) (s, g)) \<longleftrightarrow>
     (\<exists>g1. g' = (n, s, s') # g1 \<and> (s', g1) \<in> set (ms ic a (s, g)))"
  by auto

lemma ms_Alt_mem:
  "(s', g') \<in> set (ms ic (Alt a b) st) \<longleftrightarrow>
     (s', g') \<in> set (ms ic a st) \<or> (s', g') \<in> set (ms ic b st)"
  by simp

lemma ms_Seq_Eps: "ms ic (Seq a Eps) st = ms ic a st"
proof -
  have "ms ic Eps = (\<lambda>st. [st])" by (rule ext) simp
  then show ?thesis by simp
qed

lemma star_all_mem: "t \<in> set (star_all P s) \<Longrightarrow> \<exists>w. s = w @ t \<and> list_all P w"
proof (induction s)
  case Nil
  then show ?case by simp
next
  case (Cons c cs)
  show ?case
  proof (cases "t = c # cs")
    case True
    then show ?thesis by simp
  next
    case False
    with Cons.prems have "P c" "t \<in> set (star_all P cs)" by (auto split: if_splits)
    with Cons.IH obtain w where "cs = w @ t" "list_all P w" by blast
    with \<open>P c\<close> have "c # cs = (c # w) @ t \<and> list_all P (c # w)" by simp
    then show ?thesis by blast
  qed
qed

lemma ms_Star_mem:
  assumes "(s', g') \<in> set (ms ic (Star k) (s, g))"
  shows "g' = g \<and> (\<exists>w. s = w @ s' \<and> list_all (in_class k) w)"
  using assms star_all_mem [of s' "in_class k" s] by auto

lemma ms_lits_eq:
  "ms ic (lits p) (s, g) =
     (if length p \<le> length s \<and> list_all2 (chr_match ic) p (take (length p) s)
      then [(drop (length p) s, g)] else [])"
proof (induction p arbitrary: s)
  case Nil
  show ?case by simp
next
  case (Cons c p)
  show ?case
  proof (cases s)
    case Nil
    then show ?thesis by simp
  next
    case (Cons x xs)
    with Cons.IH [of xs] show ?thesis by simp
  qed
qed

lemma prefix_split:
  "(\<exists>w. s = w @ t \<and> list_all2 P p w) \<longleftrightarrow>
     length p \<le> length s \<and> list_all2 P p (take (length p) s) \<and> t = drop (length p) s"
proof
  assume "\<exists>w. s = w @ t \<and> list_all2 P p w"
  then obtain w where w: "s = w @ t" "list_all2 P p w" by blast
  then have "length w = length p" by (simp add: list_all2_lengthD)
  with w show "length p \<le> length s \<and> list_all2 P p (take (length p) s) \<and> t = drop (length p) s"
    by simp
next
  assume a: "length p \<le> length s \<and> list_all2 P p (take (length p) s) \<and> t = drop (length p) s"
  then have "s = take (length p) s @ t" by simp
  with a show "\<exists>w. s = w @ t \<and> list_all2 P p w" by blast
qed

lemma ms_lits_mem:
  "(s', g') \<in> set (ms ic (lits p) (s, g)) \<longleftrightarrow>
     g' = g \<and> (\<exists>w. s = w @ s' \<and> list_all2 (chr_match ic) p w)"
  unfolding prefix_split ms_lits_eq by auto

lemma chr_match_ascii:
  assumes "p < 128" "c < 128"
  shows "chr_match True p c \<longleftrightarrow> ascii_lower c = ascii_lower p"
  using assms by (auto simp: chr_match_def ci_eq_def ascii_lower_def ascii_upper_def Let_def)

lemma ms_lits_nonempty:
  "ms True (lits p) (s, g) \<noteq> [] \<longleftrightarrow> (\<exists>w ys. s = w @ ys \<and> ci_word p w)"
proof -
  have "ms True (lits p) (s, g) \<noteq> [] \<longleftrightarrow> (\<exists>s' g'. (s', g') \<in> set (ms True (lits p) (s, g)))"
    by (cases "ms True (lits p) (s, g)") auto
  then show ?thesis unfolding ms_lits_mem ci_word_def by auto
qed

lemma contains_ci_suffix:
  "contains_ci p s \<longleftrightarrow> (\<exists>t. suffix t s \<and> ms True (lits p) (t, []) \<noteq> [])"
  unfolding ms_lits_nonempty contains_ci_def suffix_def by auto

lemma safe_re_search:
  "re_search True safe_re txt \<noteq> None \<longleftrightarrow>
     contains_ci (str ''safe to drive: yes'') txt \<or> contains_ci (str ''safe: yes'') txt"
  unfolding re_search_None contains_ci_suffix safe_re_def by auto


subsection \<open>The section headers\<close>

lemma seq_lits_step:
  assumes "(s', g') \<in> set (ms True (Seq (lits p) r) (s, g))"
  obtains w t where "s = w @ t" "ci_word p w" "(s', g') \<in> set (ms True r (t, g))"
  using assms unfolding ms_Seq_mem ms_lits_mem ci_word_def by blast

lemma seq_star_step:
  assumes "(s', g') \<in> set (ms ic (Seq (Star k) r) (s, g))"
  obtains w t where "s = w @ t" "list_all (in_class k) w" "(s', g') \<in> set (ms ic r (t, g))"
proof -
  from assms obtain s1 g1 where
    m: "(s1, g1) \<in> set (ms ic (Star k) (s, g))" "(s', g') \<in> set (ms ic r (s1, g1))"
    unfolding ms_Seq_mem by blast
  from ms_Star_mem [OF m(1)] m(2) that show thesis by blast
qed

lemma seq_lit_step:
  assumes "(s', g') \<in> set (ms ic (Seq (Lit p) r) (s, g))"
  obtains c t where "s = c # t" "chr_match ic p c" "(s', g') \<in> set (ms ic r (t, g))"
  using assms unfolding ms_Seq_mem ms_Lit_mem by blast

lemma header_match:
  assumes "(s', g') \<in> set (ms True
     (Seq (lits h) (Seq (Star Space) (Seq (lits num) (Seq (Star Space) (Seq (lits w1)
       (Seq (Star Space) (Seq (lits w2) (Seq (Lit 10) R)))))))) (t, g))"
  shows "\<exists>x a n b h1 c h2 rest.
      t = x @ a @ n @ b @ h1 @ c @ h2 @ [10] @ rest \<and> ci_word h x \<and> ci_word num n \<and>
      list_all isspace a \<and> list_all isspace b \<and> list_all isspace c \<and>
      ci_word w1 h1 \<and> ci_word w2 h2"
proof -
  from assms obtain x t1 where 1: "t = x @ t1" "ci_word h x" and
    m1: "(s', g') \<in> set (ms True (Seq (Star Space) (Seq (lits num) (Seq (Star Space)
          (Seq (lits w1) (Seq (Star Space) (Seq (lits w2) (Seq (Lit 10) R))))))) (t1, g))"
    by (rule seq_lits_step)
  from m1 obtain a t2 where 2: "t1 = a @ t2" "list_all (in_class Space) a" and
    m2: "(s', g') \<in> set (ms True (Seq (lits num) (Seq (Star Space)
          (Seq (lits w1) (Seq (Star Space) (Seq (lits w2) (Seq (Lit 10) R)))))) (t2, g))"
    by (rule seq_star_step)
  from m2 obtain n t3 where 3: "t2 = n @ t3" "ci_word num n" and
    m3: "(s', g') \<in> set (ms True (Seq (Star Space)
          (Seq (lits w1) (Seq (Star Space) (Seq (lits w2) (Seq (Lit 10) R))))) (t3, g))"
    by (rule seq_lits_step)
  from m3 obtain b t4 where 4: "t3 = b @ t4" "list_all (in_class Space) b" and
    m4: "(s', g') \<in> set (ms True
          (Seq (lits w1) (Seq (Star Space) (Seq (lits w2) (Seq (Lit 10) R)))) (t4, g))"
    by (rule seq_star_step)
  from m4 obtain h1 t5 where 5: "t4 = h1 @ t5" "ci_word w1 h1" and
    m5: "(s', g') \<in> set (ms True (Seq (Star Space) (Seq (lits w2) (Seq (Lit 10) R))) (t5, g))"
    by (rule seq_lits_step)
  from m5 obtain c t6 where 6: "t5 = c @ t6" "list_all (in_class Space) c" and
    m6: "(s', g') \<in> set (ms True (Seq (lits w2) (Seq (Lit 10) R)) (t6, g))"
    by (rule seq_star_step)
  from m6 obtain h2 t7 where 7: "t6 = h2 @ t7" "ci_word w2 h2" and
    m7: "(s', g') \<in> set (ms True (Seq (Lit 10) R) (t7, g))"
    by (rule seq_lits_step)
  from m7 obtain k t8 where 8: "t7 = k # t8" "chr_match True 10 k"
    by (rule seq_lit_step)
  from 8(2) have "k = 10"
    by (simp add: chr_match_def ci_eq_def ascii_lower_def ascii_upper_def)
  with 1 2 3 4 5 6 7 8 have "t = x @ a @ n @ b @ h1 @ c @ h2 @ [10] @ t8" by simp
  moreover from 2(2) 4(2) 6(2) have "list_all isspace a" "list_all isspace b" "list_all isspace c"
    by (simp_all add: list_all_iff)
  ultimately show ?thesis using 1(2) 3(2) 5(2) 7(2) by blast
qed

lemma ci_word_hashes: "ci_word (str ''###'') x \<longleftrightarrow> x = str ''###''"
  by (auto simp: ci_word_def str_def list_all2_Cons1 chr_match_def ci_eq_def ascii_lower_def
      ascii_upper_def)

lemma ci_word_num:
  "ci_word (str ''1.'') x \<longleftrightarrow> x = str ''1.''" "ci_word (str ''2.'') x \<longleftrightarrow> x = str ''2.''"
  by (auto simp: ci_word_def str_def list_all2_Cons1 chr_match_def ci_eq_def ascii_lower_def
      ascii_upper_def)

lemma vehicle_re_search:
  assumes "re_search True vehicle_re txt = Some m"
  shows "has_header (str ''1.'') (str ''Vehicle'') (str ''Identification'') txt"
proof -
  from re_search_Some [OF assms] obtain t s' where
    t: "suffix t txt" "(s', m) \<in> set (ms True vehicle_re (t, []))" by blast
  from header_match [OF t(2) [unfolded vehicle_re_def seq.simps]] t(1)
  show ?thesis
    unfolding has_header_def suffix_def ci_word_hashes ci_word_num by force
qed

lemma damages_re_search:
  assumes "re_search True damages_re txt = Some m"
  shows "has_header (str ''2.'') (str ''Damage'') (str ''Assessment'') txt"
proof -
  from re_search_Some [OF assms] obtain t s' where
    t: "suffix t txt" "(s', m) \<in> set (ms True damages_re (t, []))" by blast
  from header_match [OF t(2) [unfolded damages_re_def seq.simps]] t(1)
  show ?thesis
    unfolding has_header_def suffix_def ci_word_hashes ci_word_num by force
qed

lemma has_header_hash: "has_header num w1 w2 s \<Longrightarrow> 35 \<in> set s"
  by (auto simp: has_header_def str_def)


subsection \<open>The labels of extract_value\<close>

lemma value_re_search:
  assumes "re_search True (value_re key) txt = Some m"
  shows "contains_ci (py_strip key @ [58]) txt"
proof -
  from re_search_Some [OF assms] obtain t s' where
    t: "suffix t txt" "(s', m) \<in> set (ms True (value_re key) (t, []))" by blast
  from t(2) [unfolded value_re_def seq.simps] obtain w t1 where
    1: "t = w @ t1" "ci_word (py_strip key) w" and
    m1: "(s', m) \<in> set (ms True (Seq (Lit 58) (Seq (Star Space) (Seq (Group 1 (StarLazy Dot))
           (Seq (Ahead (Alt (Lit 10) Dollar)) Eps)))) (t1, []))"
    by (rule seq_lits_step)
  from m1 obtain c t2 where 2: "t1 = c # t2" "chr_match True 58 c"
    by (rule seq_lit_step)
  from 1(2) 2(2) have "ci_word (py_strip key @ [58]) (w @ [c])"
    by (simp add: ci_word_def list_all2_appendI)
  moreover from t(1) 1(1) 2(1) obtain xs where "txt = xs @ (w @ [c]) @ t2"
    by (auto simp: suffix_def)
  ultimately show ?thesis unfolding contains_ci_def by blast
qed

lemma extract_loop_sentinel:
  assumes "\<forall>key \<in> set keys. \<not> contains_ci (py_strip key @ [58]) txt"
  shows "extract_loop txt keys = Some sentinel"
  using assms
proof (induction keys)
  case Nil
  show ?case by simp
next
  case (Cons key keys)
  then have "re_search True (value_re key) txt = None"
    using value_re_search by (cases "re_search True (value_re key) txt") auto
  with Cons show ?case by simp
qed

lemma total_cost_sentinel:
  assumes "\<not> contains_ci (str ''total estimated repair cost:'') txt"
    and "\<not> contains_ci (str ''total cost:'') txt"
  shows "extract_value txt (str ''total estimated repair cost|total cost'') = Some sentinel"
proof -
  have k: "py_split 124 (str ''total estimated repair cost|total cost'') =
      [str ''total estimated repair cost'', str ''total cost'']"
    "py_strip (str ''total estimated repair cost'') @ [58] = str ''total estimated repair cost:''"
    "py_strip (str ''total cost'') @ [58] = str ''total cost:''"
    by (simp_all only: eval_rules str_eval cong: eval_cong)
  from assms show ?thesis
    unfolding extract_value_def k(1) by (intro extract_loop_sentinel) (simp add: k)
qed

lemma repair_time_sentinel:
  assumes "\<not> contains_ci (str ''estimated repair timeline:'') txt"
    and "\<not> contains_ci (str ''repair time:'') txt"
  shows "extract_value txt (str ''estimated repair timeline|repair time'') = Some sentinel"
proof -
  have k: "py_split 124 (str ''estimated repair timeline|repair time'') =
      [str ''estimated repair timeline'', str ''repair time'']"
    "py_strip (str ''estimated repair timeline'') @ [58] = str ''estimated repair timeline:''"
    "py_strip (str ''repair time'') @ [58] = str ''repair time:''"
    by (simp_all only: eval_rules str_eval cong: eval_cong)
  from assms show ?thesis
    unfolding extract_value_def k(1) by (intro extract_loop_sentinel) (simp add: k)
qed

lemma contains_ci_colon:
  assumes "contains_ci p s" "58 \<in> set p"
  shows "58 \<in> set s"
proof -
  from assms(1) obtain xs w ys where w: "s = xs @ w @ ys" "list_all2 (chr_match True) p w"
    unfolding contains_ci_def ci_word_def by blast
  from assms(2) obtain i where i: "i < length p" "p ! i = 58"
    by (auto simp: in_set_conv_nth)
  with w(2) have m: "chr_match True 58 (w ! i)" and l: "i < length w"
    by (auto simp: list_all2_conv_all_nth)
  from m have "w ! i = 58"
    by (simp add: chr_match_def ci_eq_def ascii_lower_def ascii_upper_def)
  with l have "58 \<in> set w" by (metis nth_mem)
  with w(1) show ?thesis by simp
qed

subsection \<open>Matches of the damage line consume text\<close>

text \<open>
  A match of the damage line starts with a dash and a space, so it is never empty, and
  \<open>findall\<close> always continues where the match ended.
\<close>

lemma star_all_suffix: "t \<in> set (star_all P s) \<Longrightarrow> suffix t s"
  by (induction s) (auto simp: suffix_Cons split: if_splits)

lemma ms_suffix: "(s', g') \<in> set (ms ic r (s, g)) \<Longrightarrow> suffix s' s"
proof (induction r arbitrary: s g s' g')
  case (Lit p)
  then show ?case by (cases s) (auto simp: suffix_Cons split: if_splits)
next
  case (Seq a b)
  then obtain s1 g1 where "(s1, g1) \<in> set (ms ic a (s, g))" "(s', g') \<in> set (ms ic b (s1, g1))"
    by auto
  with Seq.IH have "suffix s1 s" "suffix s' s1" by blast+
  then show ?case by (rule suffix_order.trans [rotated])
next
  case (Alt a b)
  from Alt.prems have "(s', g') \<in> set (ms ic a (s, g)) \<or> (s', g') \<in> set (ms ic b (s, g))"
    by simp
  with Alt.IH show ?case by blast
next
  case (Group n a)
  then obtain g1 where "(s', g1) \<in> set (ms ic a (s, g))" by auto
  with Group.IH show ?case by blast
next
  case (Ahead a)
  then have "s' = s" by (auto split: list.splits)
  then show ?case by simp
qed (auto simp: star_all_suffix split: if_splits)

lemma ms_lits_length:
  assumes "(s1, g1) \<in> set (ms ic (lits p) (s, g))"
  shows "length s = length p + length s1"
  using assms unfolding ms_lits_mem by (auto dest: list_all2_lengthD)

lemma damage_item_consumes:
  assumes "(s', g') \<in> set (ms False damage_item_re (s, g))"
  shows "length s' < length s"
proof -
  from assms [unfolded damage_item_re_def seq.simps] obtain s1 g1 where
    1: "(s1, g1) \<in> set (ms False (lits (str ''- '')) (s, g))" and
    2: "(s', g') \<in> set (ms False (Seq (Group 1 (StarLazy Dot)) (Seq (lits (str '' (''))
          (Seq (Group 2 (StarLazy Dot)) (Seq (lits (str '') - ''))
          (Seq (Group 3 (Alt (lits (str ''minor'')) (Alt (lits (str ''moderate''))
                  (Alt (lits (str ''severe'')) (Alt (lits fa_minor)
                  (Alt (lits fa_moderate) (lits fa_severe))))))) Eps))))) (s1, g1))"
    unfolding ms_Seq_mem [of _ _ _ "lits (str ''- '')"] by blast
  from ms_lits_length [OF 1] have "length s1 < length s" by (simp add: str_def)
  moreover from ms_suffix [OF 2] have "length s' \<le> length s1" by (rule suffix_length_le)
  ultimately show ?thesis by simp
qed

lemma findall_damage_item_Cons:
  "findall damage_item_re (c # cs) =
     (case ms False damage_item_re (c # cs, []) of
        [] \<Rightarrow> findall damage_item_re cs
      | (s', g) # _ \<Rightarrow> g # findall damage_item_re s')"
proof (cases "ms False damage_item_re (c # cs, [])")
  case Nil
  then show ?thesis by simp
next
  case (Cons x xs)
  then have "(fst x, snd x) \<in> set (ms False damage_item_re (c # cs, []))" by simp
  from damage_item_consumes [OF this] Cons show ?thesis by (simp add: case_prod_unfold)
qed

subsection \<open>The severity group of a damage line\<close>

lemma findall_mem:
  "g \<in> set (findall r s) \<Longrightarrow> \<exists>t s'. (s', g) \<in> set (ms False r (t, []))"
proof (induction r s rule: findall.induct)
  case (1 r)
  show ?case
  proof (cases "ms False r ([], [])")
    case Nil
    with 1 show ?thesis by simp
  next
    case (Cons x xs)
    obtain s1 g1 where x: "x = (s1, g1)" by (cases x)
    with Cons 1 have "g = g1" by simp
    moreover from Cons x have "(s1, g1) \<in> set (ms False r ([], []))" by simp
    ultimately show ?thesis by blast
  qed
next
  case (2 r c cs)
  show ?case
  proof (cases "ms False r (c # cs, [])")
    case Nil
    with 2 show ?thesis by simp
  next
    case (Cons x xs)
    obtain s1 g1 where x: "x = (s1, g1)" by (cases x)
    with Cons have m: "(s1, g1) \<in> set (ms False r (c # cs, []))" by simp
    from 2 Cons x have "g = g1 \<or> g \<in> set (findall r s1) \<and> length s1 < length (c # cs) \<or>
        g \<in> set (findall r cs) \<and> \<not> length s1 < length (c # cs)"
      by (auto split: if_splits)
    with 2(2,3) Cons x m show ?thesis by blast
  qed
qed

lemma exact_word: "list_all2 (chr_match False) p w \<Longrightarrow> w = p"
  by (induction p w rule: list_all2_induct) (simp_all add: chr_match_def)

lemma group3_token:
  assumes "(s', g') \<in> set (ms False damage_item_re (s, g))"
  shows "group_or_empty g' 3 \<in> set [str ''minor'', str ''moderate'', str ''severe'',
           fa_minor, fa_moderate, fa_severe]"
proof -
  let ?A = "Alt (lits (str ''minor'')) (Alt (lits (str ''moderate''))
                  (Alt (lits (str ''severe'')) (Alt (lits fa_minor)
                  (Alt (lits fa_moderate) (lits fa_severe)))))"
  from assms [unfolded damage_item_re_def seq.simps] obtain s1 g1 where
    "(s', g') \<in> set (ms False (Seq (Group 1 (StarLazy Dot)) (Seq (lits (str '' (''))
          (Seq (Group 2 (StarLazy Dot)) (Seq (lits (str '') - ''))
          (Seq (Group 3 ?A) Eps))))) (s1, g1))"
    unfolding ms_Seq_mem [of _ _ _ "lits (str ''- '')"] by blast
  then obtain s2 g2 where
    "(s', g') \<in> set (ms False (Seq (lits (str '' (''))
          (Seq (Group 2 (StarLazy Dot)) (Seq (lits (str '') - ''))
          (Seq (Group 3 ?A) Eps)))) (s2, g2))"
    unfolding ms_Seq_mem [of _ _ _ "Group 1 (StarLazy Dot)"] by blast
  then obtain s3 g3 where
    "(s', g') \<in> set (ms False (Seq (Group 2 (StarLazy Dot)) (Seq (lits (str '') - ''))
          (Seq (Group 3 ?A) Eps))) (s3, g3))"
    unfolding ms_Seq_mem [of _ _ _ "lits (str '' ('')"] by blast
  then obtain s4 g4 where
    "(s', g') \<in> set (ms False (Seq (lits (str '') - '')) (Seq (Group 3 ?A) Eps)) (s4, g4))"
    unfolding ms_Seq_mem [of _ _ _ "Group 2 (StarLazy Dot)"] by blast
  then obtain s5 g5 where
    "(s', g') \<in> set (ms False (Seq (Group 3 ?A) Eps) (s5, g5))"
    unfolding ms_Seq_mem [of _ _ _ "lits (str '') - '')"] by blast
  then have "(s', g') \<in> set (ms False (Group 3 ?A) (s5, g5))" by (simp only: ms_Seq_Eps)
  then obtain g6 where g': "g' = (3, s5, s') # g6" and m: "(s', g6) \<in> set (ms False ?A (s5, g5))"
    unfolding ms_Group_mem by blast
  from m obtain tok where tok: "tok \<in> set [str ''minor'', str ''moderate'', str ''severe'',
           fa_minor, fa_moderate, fa_severe]" and "(s', g6) \<in> set (ms False (lits tok) (s5, g5))"
    unfolding ms_Alt_mem by auto
  then obtain w where "s5 = w @ s'" "list_all2 (chr_match False) tok w"
    unfolding ms_lits_mem by blast
  with exact_word have "s5 = tok @ s'" by blast
  with g' have "group_or_empty g' 3 = tok" by (simp add: group_or_empty_def group_def)
  with tok show ?thesis by simp
qed

lemma damage_items_token:
  assumes "(p, t, sev) \<in> set (damage_items sec)"
  shows "sev \<in> set [str ''minor'', str ''moderate'', str ''severe'',
           fa_minor, fa_moderate, fa_severe]"
proof -
  from assms obtain g where "g \<in> set (findall damage_item_re sec)" "sev = group_or_empty g 3"
    by (auto simp: damage_items_def)
  with findall_mem group3_token show ?thesis by blast
qed

lemma record_of_token:
  assumes "sev \<in> set [str ''minor'', str ''moderate'', str ''severe'',
           fa_minor, fa_moderate, fa_severe]"
  shows "severity (damage_record tbl (p, t, sev)) \<in> set [fa_minor, fa_moderate, fa_severe] \<and>
         action (damage_record tbl (p, t, sev)) =
           (if severity (damage_record tbl (p, t, sev)) = fa_severe then fa_replace else fa_repair)"
proof -
  from assms consider "sev = str ''minor''" | "sev = str ''moderate''" | "sev = str ''severe''"
    | "sev = fa_minor" | "sev = fa_moderate" | "sev = fa_severe" by auto
  then show ?thesis
  proof cases
    case 1
    show ?thesis unfolding 1
      by (simp only: eval_rules str_eval damage.select_convs cong: eval_cong)
  next
    case 2
    show ?thesis unfolding 2
      by (simp only: eval_rules str_eval damage.select_convs cong: eval_cong)
  next
    case 3
    show ?thesis unfolding 3
      by (simp only: eval_rules str_eval damage.select_convs cong: eval_cong)
  next
    case 4
    show ?thesis unfolding 4
      by (simp only: eval_rules str_eval damage.select_convs cong: eval_cong)
  next
    case 5
    show ?thesis unfolding 5
      by (simp only: eval_rules str_eval damage.select_convs cong: eval_cong)
  next
    case 6
    show ?thesis unfolding 6
      by (simp only: eval_rules str_eval damage.select_convs cong: eval_cong)
  qed
qed

section \<open>parse_analysis never takes the except branch\<close>

lemma parse_vehicle_total: "\<exists>v. parse_vehicle txt = Some v"
proof (cases "re_search True vehicle_re txt")
  case None
  then show ?thesis by (simp add: parse_vehicle_def)
next
  case (Some m)
  have "sets_group 1 vehicle_re" by (simp add: vehicle_re_def)
  from re_search_group [OF this Some] obtain info where i: "group m 1 = Some info" by blast
  obtain a b c d where
    "extract_value info (str ''make|manufacturer'') = Some a"
    "extract_value info (str ''model'') = Some b"
    "extract_value info (str ''year'') = Some c"
    "extract_value info (str ''license plate|plate'') = Some d"
    using extract_value_total by metis
  with Some i show ?thesis by (simp add: parse_vehicle_def)
qed

lemma parse_damages_section:
  "parse_damages tbl txt =
     Some (case damage_section txt of None \<Rightarrow> []
           | Some sec \<Rightarrow> map (damage_record tbl) (damage_items sec))"
proof (cases "re_search True damages_re txt")
  case None
  then show ?thesis by (simp add: parse_damages_def damage_section_def)
next
  case (Some m)
  have "sets_group 1 damages_re" by (simp add: damages_re_def)
  from re_search_group [OF this Some] obtain sec where "group m 1 = Some sec" by blast
  with Some show ?thesis by (simp add: parse_damages_def damage_section_def)
qed

lemma parse_analysis_Parsed:
  "\<exists>v tc rt.
     parse_vehicle txt = Some v \<and>
     extract_value txt (str ''total estimated repair cost|total cost'') = Some tc \<and>
     extract_value txt (str ''estimated repair timeline|repair time'') = Some rt \<and>
     parse_analysis tbl txt =
       Parsed \<lparr>vehicle = v,
               damages = (case damage_section txt of None \<Rightarrow> []
                          | Some sec \<Rightarrow> map (damage_record tbl) (damage_items sec)),
               total_cost = tc, repair_time = rt,
               safety_status = (if re_search True safe_re txt \<noteq> None then fa_safe else fa_unsafe),
               content = txt\<rparr>"
proof -
  obtain v where v: "parse_vehicle txt = Some v" using parse_vehicle_total by blast
  obtain tc where tc: "extract_value txt (str ''total estimated repair cost|total cost'') = Some tc"
    using extract_value_total by blast
  obtain rt where rt: "extract_value txt (str ''estimated repair timeline|repair time'') = Some rt"
    using extract_value_total by blast
  from v tc rt show ?thesis
    by (simp add: parse_analysis_def parse_body_def parse_damages_section)
qed

theorem never_degraded: "parse_analysis tbl txt \<noteq> Degraded txt'"
  using parse_analysis_Parsed [of "txt" tbl] by auto

section \<open>The properties\<close>

subsection \<open>Scenario A\<close>

text \<open>
  C1. On the text of Scenario A, \<open>parse_analysis\<close> returns the vehicle Toyota, Camry, 2019,
  ABC123; two damage records in the order of the text, the front bumper (cracked, severe,
  to replace, 6-10 million) and the hood (dented, minor, to repair, 1-2 million), with the
  severity, the action and the cost in Persian; the total cost 5000, the repair time
  3 days and the status "safe".
\<close>

theorem scenario_a_report:
  "parse_analysis tbl scenario_a =
     Parsed \<lparr>vehicle = [(''make'', str ''Toyota''), (''model'', str ''Camry''),
                        (''year'', str ''2019''), (''plate'', str ''ABC123'')],
             damages =
               [\<lparr>part = str ''Front Bumper'', dtype = str ''Cracked'', severity = fa_severe,
                 action = fa_replace, cost = str ''6-10'' @ fa_million_toman\<rparr>,
                \<lparr>part = str ''Hood'', dtype = str ''Dented'', severity = fa_minor,
                 action = fa_repair, cost = str ''1-2'' @ fa_million_toman\<rparr>],
             total_cost = str ''5000'', repair_time = str ''3 days'',
             safety_status = fa_safe, content = scenario_a\<rparr>"
  apply (simp only: scenario_a_def str_eval)
  apply (simp only: eval_rules str_eval
      cong: eval_cong)
  done

subsection \<open>Action and cost as functions of the stored severity\<close>

text \<open>
  In every record that \<open>parse_analysis\<close> produces, the stored severity is one of the three
  Persian labels and the action is a function of it: "replace" for the label of severe,
  "repair" for the two others.
\<close>

theorem action_by_severity:
  assumes "parse_analysis tbl txt = Parsed r" and "d \<in> set (damages r)"
  shows "severity d \<in> set [fa_minor, fa_moderate, fa_severe] \<and>
         action d = (if severity d = fa_severe then fa_replace else fa_repair)"
proof -
  from parse_analysis_Parsed [of "txt" tbl] assms obtain sec p t sev where
    "(p, t, sev) \<in> set (damage_items sec)" "d = damage_record tbl (p, t, sev)"
    by (auto split: option.splits)
  with damage_items_token record_of_token show ?thesis by blast
qed

text \<open>
  C2. Two damage records with the same stored severity should have the same action and the
  same cost. They have the same action, but not the same cost: \<open>estimate_cost\<close> is given
  the token as it stands in the text and knows the three English keys only, while
  \<open>translate_severity\<close> and the test for the action also know the Persian ones. On a section
  with the lines "minor" and its Persian word, both records store the Persian label for
  minor; the first costs 1-2 million and the second has the sentinel.
\<close>

theorem two_minor_lines_report:
  "parse_analysis tbl two_minor_lines =
     Parsed \<lparr>vehicle = [],
             damages =
               [\<lparr>part = str ''Hood'', dtype = str ''Dented'', severity = fa_minor,
                 action = fa_repair, cost = str ''1-2'' @ fa_million_toman\<rparr>,
                \<lparr>part = str ''Door'', dtype = str ''Scratched'', severity = fa_minor,
                 action = fa_repair, cost = sentinel\<rparr>],
             total_cost = sentinel, repair_time = sentinel,
             safety_status = fa_unsafe, content = two_minor_lines\<rparr>"
  by (simp only: two_minor_lines_def eval_rules str_eval cong: eval_cong)

subsection \<open>A text without structure\<close>

text \<open>
  On plain prose \<open>parse_analysis\<close> does not return the content alone: it returns the full
  record, with the empty vehicle, no damages, the sentinel as total cost and repair time and
  the status "unsafe".
\<close>

theorem plain_prose_counterexample:
  "parse_analysis id plain_prose \<noteq> Degraded plain_prose \<and>
   parse_analysis id plain_prose =
     Parsed \<lparr>vehicle = [], damages = [], total_cost = sentinel, repair_time = sentinel,
             safety_status = fa_unsafe, content = plain_prose\<rparr>"
  by (simp only: plain_prose_def eval_rules str_eval analysis.distinct cong: eval_cong)

text \<open>
  C3, as the code has it. For every text with no section header, none of the four labels of
  the total cost and the repair time, and no safety phrase, \<open>parse_analysis\<close> returns the
  full record: the empty vehicle, no damages, the sentinel as total cost and as repair
  time, the status "unsafe" and the text itself as content.
\<close>

theorem no_structure_report:
  assumes "\<not> has_header (str ''1.'') (str ''Vehicle'') (str ''Identification'') txt"
    and "\<not> has_header (str ''2.'') (str ''Damage'') (str ''Assessment'') txt"
    and "\<not> contains_ci (str ''total estimated repair cost:'') txt"
    and "\<not> contains_ci (str ''total cost:'') txt"
    and "\<not> contains_ci (str ''estimated repair timeline:'') txt"
    and "\<not> contains_ci (str ''repair time:'') txt"
    and "\<not> contains_ci (str ''safe to drive: yes'') txt"
    and "\<not> contains_ci (str ''safe: yes'') txt"
  shows "parse_analysis tbl txt =
     Parsed \<lparr>vehicle = [], damages = [], total_cost = sentinel, repair_time = sentinel,
             safety_status = fa_unsafe, content = txt\<rparr>"
proof -
  from assms(1) have "re_search True vehicle_re txt = None"
    using vehicle_re_search by (cases "re_search True vehicle_re txt") auto
  then have v: "parse_vehicle txt = Some []" by (simp add: parse_vehicle_def)
  from assms(2) have "re_search True damages_re txt = None"
    using damages_re_search by (cases "re_search True damages_re txt") auto
  then have d: "damage_section txt = None" by (simp add: damage_section_def)
  from assms(7,8) have s: "re_search True safe_re txt = None"
    using safe_re_search [of "txt"] by simp
  from parse_analysis_Parsed [of "txt" tbl] v d s
    total_cost_sentinel [OF assms(3,4)] repair_time_sentinel [OF assms(5,6)]
  show ?thesis by auto
qed

theorem no_structure_report_witness:
  "\<not> has_header (str ''1.'') (str ''Vehicle'') (str ''Identification'') plain_prose \<and>
   \<not> has_header (str ''2.'') (str ''Damage'') (str ''Assessment'') plain_prose \<and>
   \<not> contains_ci (str ''total estimated repair cost:'') plain_prose \<and>
   \<not> contains_ci (str ''total cost:'') plain_prose \<and>
   \<not> contains_ci (str ''estimated repair timeline:'') plain_prose \<and>
   \<not> contains_ci (str ''repair time:'') plain_prose \<and>
   \<not> contains_ci (str ''safe to drive: yes'') plain_prose \<and>
   \<not> contains_ci (str ''safe: yes'') plain_prose \<and>
   parse_analysis id plain_prose =
     Parsed \<lparr>vehicle = [], damages = [], total_cost = sentinel, repair_time = sentinel,
             safety_status = fa_unsafe, content = plain_prose\<rparr>"
proof -
  have "35 \<notin> set plain_prose" by (simp add: plain_prose_def str_def)
  then have h: "\<not> has_header (str ''1.'') (str ''Vehicle'') (str ''Identification'') plain_prose"
    "\<not> has_header (str ''2.'') (str ''Damage'') (str ''Assessment'') plain_prose"
    using has_header_hash by blast+
  have "58 \<notin> set plain_prose" by (simp add: plain_prose_def str_def)
  then have c: "\<not> contains_ci (str ''total estimated repair cost:'') plain_prose"
    "\<not> contains_ci (str ''total cost:'') plain_prose"
    "\<not> contains_ci (str ''estimated repair timeline:'') plain_prose"
    "\<not> contains_ci (str ''repair time:'') plain_prose"
    "\<not> contains_ci (str ''safe to drive: yes'') plain_prose"
    "\<not> contains_ci (str ''safe: yes'') plain_prose"
    using contains_ci_colon by (fastforce simp: str_def)+
  from no_structure_report [OF h c, of id] h c show ?thesis by blast
qed

subsection \<open>Idempotence on the English tokens\<close>

text \<open>
  \<open>estimate_cost\<close> is not idempotent: the cost band of "minor" is not a severity, and its
  cost is the sentinel.
\<close>

theorem cost_of_cost_counterexample:
  "estimate_cost id (estimate_cost id (str ''minor'')) \<noteq> estimate_cost id (str ''minor'')"
  by (simp only: eval_rules str_eval cong: eval_cong)

text \<open>
  C4, as the code has it. For each of the English tokens minor, moderate and severe,
  \<open>translate_severity\<close> is idempotent and returns the label that the table
  \<open>severity_map\<close> gives; \<open>estimate_cost\<close> returns the band that the table \<open>costs\<close> gives,
  and applied to that band it returns the sentinel.
\<close>

theorem english_tokens_tables:
  assumes "s \<in> set [str ''minor'', str ''moderate'', str ''severe'']"
  shows "translate_severity tbl (translate_severity tbl s) = translate_severity tbl s \<and>
         severity_map s = Some (translate_severity tbl s) \<and>
         costs s = Some (estimate_cost tbl s) \<and>
         estimate_cost tbl (estimate_cost tbl s) = sentinel"
proof -
  from assms consider "s = str ''minor''" | "s = str ''moderate''" | "s = str ''severe''"
    by auto
  then show ?thesis
  proof cases
    case 1
    show ?thesis unfolding 1 by (simp only: eval_rules str_eval cong: eval_cong)
  next
    case 2
    show ?thesis unfolding 2 by (simp only: eval_rules str_eval cong: eval_cong)
  next
    case 3
    show ?thesis unfolding 3 by (simp only: eval_rules str_eval cong: eval_cong)
  qed
qed

theorem english_tokens_tables_witness:
  "str ''severe'' \<in> set [str ''minor'', str ''moderate'', str ''severe''] \<and>
   translate_severity id (translate_severity id (str ''severe'')) = translate_severity id (str ''severe'') \<and>
   severity_map (str ''severe'') = Some (translate_severity id (str ''severe'')) \<and>
   costs (str ''severe'') = Some (estimate_cost id (str ''severe'')) \<and>
   estimate_cost id (estimate_cost id (str ''severe'')) = sentinel"
  using english_tokens_tables [of "str ''severe''" id] by simp

subsection \<open>No header, no vehicle and no damages\<close>

text \<open>
  C5. For every text with no header of the vehicle section and no header of the damage
  section, \<open>parse_analysis\<close> returns the full record (it does not fail), with the empty
  vehicle and no damages.
\<close>

theorem no_headers_empty:
  assumes "\<not> has_header (str ''1.'') (str ''Vehicle'') (str ''Identification'') txt"
    and "\<not> has_header (str ''2.'') (str ''Damage'') (str ''Assessment'') txt"
  shows "\<exists>r. parse_analysis tbl txt = Parsed r \<and> vehicle r = [] \<and> damages r = []"
proof -
  from assms(1) have "re_search True vehicle_re txt = None"
    using vehicle_re_search by (cases "re_search True vehicle_re txt") auto
  then have v: "parse_vehicle txt = Some []" by (simp add: parse_vehicle_def)
  from assms(2) have "re_search True damages_re txt = None"
    using damages_re_search by (cases "re_search True damages_re txt") auto
  then have d: "damage_section txt = None" by (simp add: damage_section_def)
  from parse_analysis_Parsed [of "txt" tbl] v d show ?thesis by auto
qed

theorem no_headers_empty_witness:
  "\<not> has_header (str ''1.'') (str ''Vehicle'') (str ''Identification'') failure_notice \<and>
   \<not> has_header (str ''2.'') (str ''Damage'') (str ''Assessment'') failure_notice \<and>
   (\<exists>r. parse_analysis id failure_notice = Parsed r \<and> vehicle r = [] \<and> damages r = [])"
proof -
  have "35 \<notin> set failure_notice" by (simp add: failure_notice_def str_def)
  then have h: "\<not> has_header (str ''1.'') (str ''Vehicle'') (str ''Identification'') failure_notice"
    "\<not> has_header (str ''2.'') (str ''Damage'') (str ''Assessment'') failure_notice"
    using has_header_hash by blast+
  with no_headers_empty [OF h, of id] show ?thesis by blast
qed


subsection \<open>translate_severity by cases\<close>

text \<open>
  C6. \<open>translate_severity\<close> looks at the lower-case form of the token only: if that form is
  one of the three English tokens or one of the three Persian ones, the result is the
  Persian label of that severity; for every other token the result is the token itself,
  unchanged.
\<close>

theorem translate_severity_cases:
  "translate_severity tbl s =
     (if py_lower tbl s = str ''minor'' \<or> py_lower tbl s = fa_minor then fa_minor
      else if py_lower tbl s = str ''moderate'' \<or> py_lower tbl s = fa_moderate then fa_moderate
      else if py_lower tbl s = str ''severe'' \<or> py_lower tbl s = fa_severe then fa_severe
      else s)"
proof -
  have d: "distinct [str ''minor'', str ''moderate'', str ''severe'', fa_minor, fa_moderate, fa_severe]"
    by (simp add: str_def fa_minor_def fa_moderate_def fa_severe_def)
  have m: "severity_map k =
     (if k = str ''minor'' then Some fa_minor else if k = str ''moderate'' then Some fa_moderate
      else if k = str ''severe'' then Some fa_severe else if k = fa_minor then Some fa_minor
      else if k = fa_moderate then Some fa_moderate else if k = fa_severe then Some fa_severe
      else None)" for k
    by (simp add: severity_map_def)
  from d show ?thesis
    unfolding translate_severity_def m by auto
qed

subsection \<open>The safety status\<close>

text \<open>
  C7. For every text, \<open>parse_analysis\<close> returns a record whose safety status is the label
  "safe" if and only if the text contains, case-insensitively, "safe to drive: yes" or
  "safe: yes", and the label "unsafe" if and only if it contains neither; there is no
  third value.
\<close>

theorem safety_status_iff:
  "\<exists>r. parse_analysis tbl txt = Parsed r \<and>
       (safety_status r = fa_safe \<longleftrightarrow>
          contains_ci (str ''safe to drive: yes'') txt \<or> contains_ci (str ''safe: yes'') txt) \<and>
       (safety_status r = fa_unsafe \<longleftrightarrow>
          \<not> (contains_ci (str ''safe to drive: yes'') txt \<or> contains_ci (str ''safe: yes'') txt))"
proof -
  have d: "fa_safe \<noteq> fa_unsafe" by (simp add: fa_safe_def fa_unsafe_def)
  from parse_analysis_Parsed [of "txt" tbl] obtain r where
    r: "parse_analysis tbl txt = Parsed r"
       "safety_status r = (if re_search True safe_re txt \<noteq> None then fa_safe else fa_unsafe)"
    by auto
  from r(2) d have "safety_status r = fa_safe \<longleftrightarrow> re_search True safe_re txt \<noteq> None"
    "safety_status r = fa_unsafe \<longleftrightarrow> \<not> re_search True safe_re txt \<noteq> None"
    by auto
  with r(1) show ?thesis unfolding safe_re_search by blast
qed

subsection \<open>Damage lines with a Persian severity\<close>

lemma persian_record:
  assumes "sev \<in> set [fa_minor, fa_moderate, fa_severe]"
  shows "action (damage_record tbl (p, t, sev)) = (if sev = fa_severe then fa_replace else fa_repair) \<and>
         cost (damage_record tbl (p, t, sev)) = sentinel"
proof -
  from assms consider "sev = fa_minor" | "sev = fa_moderate" | "sev = fa_severe" by auto
  then show ?thesis
  proof cases
    case 1
    show ?thesis unfolding 1
      by (simp only: eval_rules str_eval damage.select_convs cong: eval_cong)
  next
    case 2
    show ?thesis unfolding 2
      by (simp only: eval_rules str_eval damage.select_convs cong: eval_cong)
  next
    case 3
    show ?thesis unfolding 3
      by (simp only: eval_rules str_eval damage.select_convs cong: eval_cong)
  qed
qed

text \<open>
  C8. For every text, and every line of its damage section that the damage pattern matches
  with one of the three Persian severity words, the record of that line has the action
  "replace" if the word is the one for severe and "repair" otherwise, and its cost is the
  sentinel.
\<close>

theorem persian_line_record:
  assumes "damage_section txt = Some sec"
    and "i < length (damage_items sec)"
    and "damage_items sec ! i = (p, t, sev)"
    and "sev \<in> set [fa_minor, fa_moderate, fa_severe]"
  shows "\<exists>r. parse_analysis tbl txt = Parsed r \<and> length (damages r) = length (damage_items sec) \<and>
           action (damages r ! i) = (if sev = fa_severe then fa_replace else fa_repair) \<and>
           cost (damages r ! i) = sentinel"
proof -
  from parse_analysis_Parsed [of "txt" tbl] assms(1) obtain r where
    r: "parse_analysis tbl txt = Parsed r" "damages r = map (damage_record tbl) (damage_items sec)"
    by auto
  from r(2) assms(2,3) have "damages r ! i = damage_record tbl (p, t, sev)" by simp
  with persian_record [OF assms(4), of tbl p t] r show ?thesis by auto
qed

theorem persian_line_record_witness:
  "damage_section severe_door = Some (str ''- Door (Scratched) - '' @ fa_severe) \<and>
   0 < length (damage_items (str ''- Door (Scratched) - '' @ fa_severe)) \<and>
   damage_items (str ''- Door (Scratched) - '' @ fa_severe) ! 0 =
     (str ''Door'', str ''Scratched'', fa_severe) \<and>
   fa_severe \<in> set [fa_minor, fa_moderate, fa_severe] \<and>
   (\<exists>r. parse_analysis id severe_door = Parsed r \<and>
        length (damages r) = length (damage_items (str ''- Door (Scratched) - '' @ fa_severe)) \<and>
        action (damages r ! 0) = (if fa_severe = fa_severe then fa_replace else fa_repair) \<and>
        cost (damages r ! 0) = sentinel)"
proof -
  have 1: "damage_section severe_door = Some (str ''- Door (Scratched) - '' @ fa_severe)"
    by (simp only: severe_door_def damage_section_def eval_rules str_eval cong: eval_cong)
  have 2: "damage_items (str ''- Door (Scratched) - '' @ fa_severe) =
      [(str ''Door'', str ''Scratched'', fa_severe)]"
    by (simp only: eval_rules str_eval cong: eval_cong)
  have 3: "0 < length (damage_items (str ''- Door (Scratched) - '' @ fa_severe))"
    "damage_items (str ''- Door (Scratched) - '' @ fa_severe) ! 0 =
       (str ''Door'', str ''Scratched'', fa_severe)"
    unfolding 2 by simp_all
  have 4: "fa_severe \<in> set [fa_minor, fa_moderate, fa_severe]" by simp
  from persian_line_record [OF 1 3 4, of id] 1 3 4 show ?thesis by blast
qed

subsection \<open>A label with an empty line\<close>

text \<open>
  When only white space follows the label up to the end of the text, the value is the empty
  string, and not the sentinel.
\<close>

lemma empty_value_at_end:
  "extract_value (str ''Make:'') (str ''make|manufacturer'') = Some []"
  "extract_value (str ''Make:  \<newline>'') (str ''make|manufacturer'') = Some []"
  by (simp_all only: eval_rules str_eval cong: eval_cong)

text \<open>
  C9. After a label whose line is empty, \<open>extract_value\<close> should return the empty string.
  In the pattern the white space after the colon, \<open>\s*\<close>, runs over the end of the line,
  and the group takes the next line: on "Make:" followed by the line "Model: Camry" the
  value of "make" is "Model: Camry".
\<close>

theorem empty_make_line_value:
  "extract_value empty_make_line (str ''make|manufacturer'') = Some (str ''Model: Camry'')"
  by (simp only: empty_make_line_def eval_rules str_eval cong: eval_cong)

subsection \<open>Idempotence of translate_severity\<close>

lemma severity_map_range:
  "severity_map k = Some v \<Longrightarrow> v = fa_minor \<or> v = fa_moderate \<or> v = fa_severe"
  by (simp add: severity_map_def split: if_splits)

lemma translate_severity_labels:
  "translate_severity tbl fa_minor = fa_minor"
  "translate_severity tbl fa_moderate = fa_moderate"
  "translate_severity tbl fa_severe = fa_severe"
  by (simp_all only: eval_rules str_eval cong: eval_cong)

text \<open>
  C10. \<open>translate_severity\<close> is idempotent on every string.
\<close>

theorem translate_severity_idem:
  "translate_severity tbl (translate_severity tbl s) = translate_severity tbl s"
proof (cases "severity_map (py_lower tbl s)")
  case None
  then have "translate_severity tbl s = s" by (simp add: translate_severity_def)
  then show ?thesis by simp
next
  case (Some v)
  then have "translate_severity tbl s = v" by (simp add: translate_severity_def)
  with severity_map_range [OF Some] show ?thesis
    by (auto simp: translate_severity_labels)
qed

end
